theory Spec2Isabelle
  imports Main
begin

section \<open>Python values, exceptions and dictionaries\<close>

text \<open>
  The handler of \<^verbatim>\<open>read_function.py\<close> moves Python values between the table client
  and \<^verbatim>\<open>json.dumps\<close>. A value is one of the objects a scan can deliver inside an item:
  \<^verbatim>\<open>None\<close>, a \<^verbatim>\<open>bool\<close>, an \<^verbatim>\<open>int\<close>, a \<^verbatim>\<open>str\<close>, a \<^verbatim>\<open>list\<close>, a \<^verbatim>\<open>dict\<close> with
  string keys, or an object of some other class (\<^verbatim>\<open>Decimal\<close>, \<^verbatim>\<open>Binary\<close>, \<^verbatim>\<open>set\<close>),
  of which only the class name matters here. A Python string is a list of characters
  with code points 0 to 255; a dictionary is an association list in insertion order.
\<close>

datatype pyval =
    PNone
  | PBool bool
  | PInt int
  | PStr string
  | PList "pyval list"
  | PDict "(string \<times> pyval) list"
  | PObject string

type_synonym pydict = "(string \<times> pyval) list"

text \<open>
  An instance of \<^verbatim>\<open>Exception\<close>: the name of its class and the text \<^verbatim>\<open>str(e)\<close> gives.
\<close>

datatype pyexn = PyExn (exn_class: string) (exn_str: string)

text \<open>
  \<^verbatim>\<open>d[k]\<close> on a dictionary: the value, or \<^verbatim>\<open>KeyError(k)\<close>, whose \<^verbatim>\<open>str\<close> is the key
  between single quotes (for a key of letters, as \<^verbatim>\<open>'Items'\<close> is).
\<close>

definition getitem :: "pydict \<Rightarrow> string \<Rightarrow> pyexn + pyval" where
  "getitem d k =
     (case map_of d k of
        None \<Rightarrow> Inl (PyExn ''KeyError'' ([CHR 0x27] @ k @ [CHR 0x27]))
      | Some v \<Rightarrow> Inr v)"

section \<open>\<^verbatim>\<open>json.dumps\<close> with its default arguments\<close>

text \<open>
  Integers are written in decimal, with a minus sign when negative.
\<close>

definition digit_char :: "nat \<Rightarrow> char" where
  "digit_char n = ''0123456789abcdef'' ! n"

fun string_of_nat :: "nat \<Rightarrow> string" where
  "string_of_nat n =
     (if n < 10 then [digit_char n]
      else string_of_nat (n div 10) @ [digit_char (n mod 10)])"

declare string_of_nat.simps [simp del]

definition string_of_int :: "int \<Rightarrow> string" where
  "string_of_int i =
     (if i < 0 then CHR ''-'' # string_of_nat (nat (- i)) else string_of_nat (nat i))"

text \<open>
  Strings are written between double quotes with \<^verbatim>\<open>ensure_ascii\<close>: the quote and the
  backslash are escaped, the printable characters from space to tilde stand for
  themselves, backspace, form feed, newline, carriage return and tab have their short
  escapes, and every other character is written \<^verbatim>\<open>\u00XX\<close> in lower-case hexadecimal.
\<close>

definition escape_char :: "char \<Rightarrow> string" where
  "escape_char c =
     (if c = CHR 0x5C then [CHR 0x5C, CHR 0x5C]
      else if c = CHR 0x22 then [CHR 0x5C, CHR 0x22]
      else if 32 \<le> (of_char c :: nat) \<and> (of_char c :: nat) \<le> 126 then [c]
      else if c = CHR 0x08 then [CHR 0x5C, CHR ''b'']
      else if c = CHR 0x0C then [CHR 0x5C, CHR ''f'']
      else if c = CHR 0x0A then [CHR 0x5C, CHR ''n'']
      else if c = CHR 0x0D then [CHR 0x5C, CHR ''r'']
      else if c = CHR 0x09 then [CHR 0x5C, CHR ''t'']
      else [CHR 0x5C, CHR ''u'', CHR ''0'', CHR ''0'',
            digit_char (of_char c div 16), digit_char (of_char c mod 16)])"

definition encode_string :: "string \<Rightarrow> string" where
  "encode_string s = [CHR 0x22] @ concat (map escape_char s) @ [CHR 0x22]"

text \<open>
  The encoder visits a value from left to right and raises \<^verbatim>\<open>TypeError\<close> at the first
  object it has no encoding for. Elements of a list and members of a dictionary are
  separated by a comma and a space, a key from its value by a colon and a space.
\<close>

definition not_serializable :: "string \<Rightarrow> pyexn" where
  "not_serializable cls =
     PyExn ''TypeError'' (''Object of type '' @ cls @ '' is not JSON serializable'')"

fun json_dumps :: "pyval \<Rightarrow> pyexn + string"
  and dumps_items :: "pyval list \<Rightarrow> pyexn + string"
  and dumps_members :: "(string \<times> pyval) list \<Rightarrow> pyexn + string"
where
  "json_dumps PNone = Inr ''null''"
| "json_dumps (PBool b) = Inr (if b then ''true'' else ''false'')"
| "json_dumps (PInt i) = Inr (string_of_int i)"
| "json_dumps (PStr s) = Inr (encode_string s)"
| "json_dumps (PList vs) =
     (case dumps_items vs of
        Inl e \<Rightarrow> Inl e
      | Inr s \<Rightarrow> Inr (''['' @ s @ '']''))"
| "json_dumps (PDict kvs) =
     (case dumps_members kvs of
        Inl e \<Rightarrow> Inl e
      | Inr s \<Rightarrow> Inr (''{'' @ s @ ''}''))"
| "json_dumps (PObject cls) = Inl (not_serializable cls)"
| "dumps_items [] = Inr []"
| "dumps_items [v] = json_dumps v"
| "dumps_items (v # w # vs) =
     (case json_dumps v of
        Inl e \<Rightarrow> Inl e
      | Inr s \<Rightarrow>
          (case dumps_items (w # vs) of
             Inl e \<Rightarrow> Inl e
           | Inr r \<Rightarrow> Inr (s @ '', '' @ r)))"
| "dumps_members [] = Inr []"
| "dumps_members [(k, v)] =
     (case json_dumps v of
        Inl e \<Rightarrow> Inl e
      | Inr s \<Rightarrow> Inr (encode_string k @ '': '' @ s))"
| "dumps_members ((k, v) # kv # kvs) =
     (case json_dumps v of
        Inl e \<Rightarrow> Inl e
      | Inr s \<Rightarrow>
          (case dumps_members (kv # kvs) of
             Inl e \<Rightarrow> Inl e
           | Inr r \<Rightarrow> Inr (encode_string k @ '': '' @ s @ '', '' @ r)))"

section \<open>The handler\<close>

text \<open>
  The response of the function: the dictionary with the keys \<^verbatim>\<open>statusCode\<close>,
  \<^verbatim>\<open>headers\<close> and \<^verbatim>\<open>body\<close> that both \<^verbatim>\<open>return\<close> statements build.
\<close>

record envelope =
  statusCode :: int
  headers :: "(string \<times> string) list"
  body :: string

text \<open>
  The module-level \<^verbatim>\<open>table\<close> is the handler's environment. Its \<^verbatim>\<open>scan\<close> method takes
  keyword arguments and the state of the backing store, and either raises an exception
  (an instance of \<^verbatim>\<open>Exception\<close>, the class the handler's \<^verbatim>\<open>except\<close> clause names) or
  returns a response dictionary, together with the state it leaves behind.
\<close>

type_synonym 's scan_api = "pydict \<Rightarrow> 's \<Rightarrow> (pyexn + pydict) \<times> 's"

text \<open>
  Lines 10 to 19, the body of \<^verbatim>\<open>try\<close>, given the outcome of \<^verbatim>\<open>table.scan()\<close>: any
  exception of the scan, of \<^verbatim>\<open>response['Items']\<close> or of \<^verbatim>\<open>json.dumps(items)\<close> leaves the
  block.
\<close>

definition try_body :: "pyexn + pydict \<Rightarrow> pyexn + envelope" where
  "try_body outcome =
     (case outcome of
        Inl e \<Rightarrow> Inl e
      | Inr response \<Rightarrow>
          (case getitem response ''Items'' of
             Inl e \<Rightarrow> Inl e
           | Inr items \<Rightarrow>
               (case json_dumps items of
                  Inl e \<Rightarrow> Inl e
                | Inr b \<Rightarrow>
                    Inr \<lparr>statusCode = 200,
                         headers = [(''Content-Type'', ''application/json''),
                                    (''Access-Control-Allow-Origin'', ''*'')],
                         body = b\<rparr>)))"

text \<open>
  Lines 20 to 28, the \<^verbatim>\<open>except Exception as e\<close> clause.
\<close>

definition except_body :: "pyexn \<Rightarrow> pyexn + envelope" where
  "except_body e =
     (case json_dumps (PDict [(''error'', PStr (exn_str e))]) of
        Inl e' \<Rightarrow> Inl e'
      | Inr b \<Rightarrow>
          Inr \<lparr>statusCode = 500,
               headers = [(''Content-Type'', ''application/json''),
                          (''Access-Control-Allow-Origin'', ''*'')],
               body = b\<rparr>)"

text \<open>
  \<^verbatim>\<open>lambda_handler(event, context)\<close>: one call \<^verbatim>\<open>table.scan()\<close> without keyword
  arguments, then the two blocks. The result is the envelope returned, or the
  exception that leaves the handler, and the state of the store after the call.
\<close>

definition lambda_handler ::
  "'s scan_api \<Rightarrow> 'ev \<Rightarrow> 'ctx \<Rightarrow> 's \<Rightarrow> (pyexn + envelope) \<times> 's" where
  "lambda_handler scan event context s =
     (case scan [] s of
        (outcome, s') \<Rightarrow>
          ((case try_body outcome of
              Inl e \<Rightarrow> except_body e
            | Inr env \<Rightarrow> Inr env), s'))"

section \<open>The backing table\<close>

text \<open>
  The store behind \<^verbatim>\<open>table\<close> is the environment of the handler, a DynamoDB table
  reached through \<^verbatim>\<open>boto3\<close>; this is the paged scan of that service. Its state: the rows
  in the order a scan yields them, the number of rows that fit in one page of a scan,
  and the requests that fail (by their keyword arguments), with the exception each
  raises. A scan request names where it starts with the keyword \<^verbatim>\<open>ExclusiveStartKey\<close>
  (the offset of the first row, none for the first page) and its response holds the
  page under \<^verbatim>\<open>Items\<close> and, when rows remain after the page, the continuation token
  under \<^verbatim>\<open>LastEvaluatedKey\<close>. A scan leaves the store as it is.
\<close>

record table_state =
  rows :: "pydict list"
  page_limit :: nat
  faults :: "(pydict \<times> pyexn) list"

definition start_of :: "pydict \<Rightarrow> nat" where
  "start_of kwargs =
     (case map_of kwargs ''ExclusiveStartKey'' of
        Some (PInt k) \<Rightarrow> nat k
      | _ \<Rightarrow> 0)"

definition scan_page :: "table_state \<Rightarrow> nat \<Rightarrow> pydict" where
  "scan_page t k =
     (let page = take (page_limit t) (drop k (rows t)) in
        [(''Items'', PList (map PDict page)),
         (''Count'', PInt (int (length page))),
         (''ScannedCount'', PInt (int (length page)))]
        @ (if k + page_limit t < length (rows t)
           then [(''LastEvaluatedKey'', PInt (int (k + page_limit t)))]
           else []))"

definition table_scan :: "table_state scan_api" where
  "table_scan kwargs t =
     (case map_of (faults t) kwargs of
        Some e \<Rightarrow> (Inl e, t)
      | None \<Rightarrow> (Inr (scan_page t (start_of kwargs)), t))"

section \<open>Reading JSON text\<close>

text \<open>
  The reader that says what a body parses back to, after \<^verbatim>\<open>json.loads\<close>: the grammar of
  RFC 8259 with integers as the only numbers (a fraction or an exponent is refused, as
  are leading zeros) and with \<^verbatim>\<open>\uXXXX\<close> escapes up to code point 255, the characters
  a string of this development holds. White space is a space, a tab, a line feed or a
  carriage return; a control character inside a string must be escaped; nothing but
  white space may follow the value. The three parsing functions take as their first
  argument how many calls deep they may still go, and \<^verbatim>\<open>json_loads\<close> gives them more
  than the length of the text.
\<close>

definition is_ws :: "char \<Rightarrow> bool" where
  "is_ws c = (c = CHR '' '' \<or> c = CHR 0x09 \<or> c = CHR 0x0A \<or> c = CHR 0x0D)"

definition skip_ws :: "string \<Rightarrow> string" where
  "skip_ws s = dropWhile is_ws s"

definition is_digit :: "char \<Rightarrow> bool" where
  "is_digit c = (48 \<le> (of_char c :: nat) \<and> (of_char c :: nat) \<le> 57)"

definition digit_value :: "char \<Rightarrow> nat" where
  "digit_value c = of_char c - 48"

definition nat_of_digits :: "string \<Rightarrow> nat" where
  "nat_of_digits ds = foldl (\<lambda>a d. 10 * a + digit_value d) 0 ds"

definition hex_value :: "char \<Rightarrow> nat option" where
  "hex_value c =
     (let n = (of_char c :: nat) in
        if 48 \<le> n \<and> n \<le> 57 then Some (n - 48)
        else if 97 \<le> n \<and> n \<le> 102 then Some (n - 87)
        else if 65 \<le> n \<and> n \<le> 70 then Some (n - 55)
        else None)"

definition unescape :: "char \<Rightarrow> char option" where
  "unescape e =
     (if e = CHR 0x22 then Some (CHR 0x22)
      else if e = CHR 0x5C then Some (CHR 0x5C)
      else if e = CHR ''/'' then Some (CHR ''/'')
      else if e = CHR ''b'' then Some (CHR 0x08)
      else if e = CHR ''f'' then Some (CHR 0x0C)
      else if e = CHR ''n'' then Some (CHR 0x0A)
      else if e = CHR ''r'' then Some (CHR 0x0D)
      else if e = CHR ''t'' then Some (CHR 0x09)
      else None)"

definition unicode_escape :: "char \<Rightarrow> char \<Rightarrow> char \<Rightarrow> char \<Rightarrow> char option" where
  "unicode_escape h1 h2 h3 h4 =
     (case (hex_value h1, hex_value h2, hex_value h3, hex_value h4) of
        (Some a, Some b, Some c, Some d) \<Rightarrow>
          (if a = 0 \<and> b = 0 then Some (char_of (16 * c + d)) else None)
      | _ \<Rightarrow> None)"

definition prepend :: "char \<Rightarrow> (string \<times> string) option \<Rightarrow> (string \<times> string) option" where
  "prepend c r = (case r of None \<Rightarrow> None | Some (s, rest) \<Rightarrow> Some (c # s, rest))"

fun scan_string :: "string \<Rightarrow> (string \<times> string) option" where
  "scan_string [] = None"
| "scan_string (c # cs) =
     (if c = CHR 0x22 then Some ([], cs)
      else if c = CHR 0x5C then
        (case cs of
           [] \<Rightarrow> None
         | e # cs' \<Rightarrow>
             (if e = CHR ''u'' then
                (case cs' of
                   h1 # h2 # h3 # h4 # cs'' \<Rightarrow>
                     (case unicode_escape h1 h2 h3 h4 of
                        None \<Rightarrow> None
                      | Some ch \<Rightarrow> prepend ch (scan_string cs''))
                 | _ \<Rightarrow> None)
              else
                (case unescape e of
                   None \<Rightarrow> None
                 | Some ch \<Rightarrow> prepend ch (scan_string cs'))))
      else if (of_char c :: nat) < 32 then None
      else prepend c (scan_string cs))"

definition scan_digits :: "bool \<Rightarrow> string \<Rightarrow> (int \<times> string) option" where
  "scan_digits neg s =
     (let ds = takeWhile is_digit s;
          r = dropWhile is_digit s
      in if ds = [] then None
         else if 1 < length ds \<and> hd ds = CHR ''0'' then None
         else if r \<noteq> [] \<and> (hd r = CHR ''.'' \<or> hd r = CHR ''e'' \<or> hd r = CHR ''E'') then None
         else Some (if neg then - int (nat_of_digits ds) else int (nat_of_digits ds), r))"

definition scan_number :: "string \<Rightarrow> (int \<times> string) option" where
  "scan_number s =
     (case s of
        [] \<Rightarrow> None
      | c # cs \<Rightarrow> (if c = CHR ''-'' then scan_digits True cs else scan_digits False (c # cs)))"

definition keyword :: "string \<Rightarrow> string \<Rightarrow> string option" where
  "keyword w s = (if take (length w) s = w then Some (drop (length w) s) else None)"

fun parse_value :: "nat \<Rightarrow> string \<Rightarrow> (pyval \<times> string) option"
  and parse_elements :: "nat \<Rightarrow> string \<Rightarrow> (pyval list \<times> string) option"
  and parse_members :: "nat \<Rightarrow> string \<Rightarrow> ((string \<times> pyval) list \<times> string) option"
where
  "parse_value 0 s = None"
| "parse_value (Suc n) s =
     (case skip_ws s of
        [] \<Rightarrow> None
      | c # cs \<Rightarrow>
          (if c = CHR 0x22 then
             (case scan_string cs of
                None \<Rightarrow> None
              | Some (str, r) \<Rightarrow> Some (PStr str, r))
           else if c = CHR ''['' then
             (case skip_ws cs of
                [] \<Rightarrow> None
              | d # r \<Rightarrow>
                  (if d = CHR '']'' then Some (PList [], r)
                   else (case parse_elements n cs of
                           None \<Rightarrow> None
                         | Some (vs, r') \<Rightarrow> Some (PList vs, r'))))
           else if c = CHR ''{'' then
             (case skip_ws cs of
                [] \<Rightarrow> None
              | d # r \<Rightarrow>
                  (if d = CHR ''}'' then Some (PDict [], r)
                   else (case parse_members n cs of
                           None \<Rightarrow> None
                         | Some (kvs, r') \<Rightarrow> Some (PDict kvs, r'))))
           else if c = CHR ''-'' \<or> is_digit c then
             (case scan_number (c # cs) of
                None \<Rightarrow> None
              | Some (i, r) \<Rightarrow> Some (PInt i, r))
           else if c = CHR ''t'' then
             (case keyword ''true'' (c # cs) of
                None \<Rightarrow> None
              | Some r \<Rightarrow> Some (PBool True, r))
           else if c = CHR ''f'' then
             (case keyword ''false'' (c # cs) of
                None \<Rightarrow> None
              | Some r \<Rightarrow> Some (PBool False, r))
           else if c = CHR ''n'' then
             (case keyword ''null'' (c # cs) of
                None \<Rightarrow> None
              | Some r \<Rightarrow> Some (PNone, r))
           else None))"
| "parse_elements 0 s = None"
| "parse_elements (Suc n) s =
     (case parse_value n s of
        None \<Rightarrow> None
      | Some (v, r) \<Rightarrow>
          (case skip_ws r of
             [] \<Rightarrow> None
           | d # r' \<Rightarrow>
               (if d = CHR '']'' then Some ([v], r')
                else if d = CHR '','' then
                  (case parse_elements n r' of
                     None \<Rightarrow> None
                   | Some (vs, r'') \<Rightarrow> Some (v # vs, r''))
                else None)))"
| "parse_members 0 s = None"
| "parse_members (Suc n) s =
     (case skip_ws s of
        [] \<Rightarrow> None
      | c # cs \<Rightarrow>
          (if c \<noteq> CHR 0x22 then None
           else
             (case scan_string cs of
                None \<Rightarrow> None
              | Some (k, r) \<Rightarrow>
                  (case skip_ws r of
                     [] \<Rightarrow> None
                   | d # r1 \<Rightarrow>
                       (if d \<noteq> CHR '':'' then None
                        else
                          (case parse_value n r1 of
                             None \<Rightarrow> None
                           | Some (v, r2) \<Rightarrow>
                               (case skip_ws r2 of
                                  [] \<Rightarrow> None
                                | e # r3 \<Rightarrow>
                                    (if e = CHR ''}'' then Some ([(k, v)], r3)
                                     else if e = CHR '','' then
                                       (case parse_members n r3 of
                                          None \<Rightarrow> None
                                        | Some (kvs, r4) \<Rightarrow> Some ((k, v) # kvs, r4))
                                     else None))))))))"

definition json_loads :: "string \<Rightarrow> pyval option" where
  "json_loads s =
     (case parse_value (Suc (length s)) s of
        None \<Rightarrow> None
      | Some (v, r) \<Rightarrow> (if skip_ws r = [] then Some v else None))"

text \<open>
  Two predicates on characters for the proofs below: what may follow a value inside the
  text \<^verbatim>\<open>json.dumps\<close> writes, and what the text of a value starts with.
\<close>

definition delimited :: "string \<Rightarrow> bool" where
  "delimited rest =
     (case rest of
        [] \<Rightarrow> True
      | c # _ \<Rightarrow> c = CHR '','' \<or> c = CHR '']'' \<or> c = CHR ''}'')"

definition value_start :: "char \<Rightarrow> bool" where
  "value_start c =
     (c = CHR 0x22 \<or> c = CHR ''['' \<or> c = CHR ''{'' \<or> c = CHR ''-'' \<or> is_digit c \<or>
      c = CHR ''t'' \<or> c = CHR ''f'' \<or> c = CHR ''n'')"

section \<open>The two envelopes\<close>

abbreviation fixed_headers :: "(string \<times> string) list" where
  "fixed_headers \<equiv>
     [(''Content-Type'', ''application/json''), (''Access-Control-Allow-Origin'', ''*'')]"

abbreviation failure_envelope :: "pyexn \<Rightarrow> envelope" where
  \<open>failure_envelope e \<equiv>
     \<lparr>statusCode = 500, headers = fixed_headers,
      body = ''{"error": '' @ encode_string (exn_str e) @ ''}''\<rparr>\<close>

section \<open>Digits and numbers\<close>

lemma below_16_cases:
  "n < 16 \<Longrightarrow> n \<in> {0, 1, 2, 3, 4, 5, 6, 7, 8, 9, 10, 11, 12, 13, 14, 15::nat}"
  by simp arith

lemma digit_char_decimal:
  assumes "n < 10"
  shows "is_digit (digit_char n)" and "digit_value (digit_char n) = n"
    and "digit_char n = CHR ''0'' \<longleftrightarrow> n = 0"
proof -
  from assms have "n < 16" by simp
  then have "n \<in> {0, 1, 2, 3, 4, 5, 6, 7, 8, 9, 10, 11, 12, 13, 14, 15::nat}"
    by (rule below_16_cases)
  with assms have c: "n \<in> {0, 1, 2, 3, 4, 5, 6, 7, 8, 9::nat}" by auto
  from c show "is_digit (digit_char n)"
    by (auto simp: digit_char_def is_digit_def)
  from c show "digit_value (digit_char n) = n"
    by (auto simp: digit_char_def digit_value_def)
  from c show "digit_char n = CHR ''0'' \<longleftrightarrow> n = 0"
    by (auto simp: digit_char_def)
qed

lemma hex_value_digit_char:
  assumes "n < 16"
  shows "hex_value (digit_char n) = Some n"
proof -
  from assms have "n \<in> {0, 1, 2, 3, 4, 5, 6, 7, 8, 9, 10, 11, 12, 13, 14, 15::nat}"
    by (rule below_16_cases)
  then show ?thesis
    by (auto simp: digit_char_def hex_value_def)
qed

lemma string_of_nat_digits: "list_all is_digit (string_of_nat n)"
proof (induction n rule: string_of_nat.induct)
  case (1 n)
  show ?case
  proof (cases "n < 10")
    case True
    then show ?thesis
      by (subst string_of_nat.simps) (simp add: digit_char_decimal)
  next
    case False
    with 1 show ?thesis
      by (subst string_of_nat.simps) (simp add: digit_char_decimal)
  qed
qed

lemma string_of_nat_nonempty: "string_of_nat n \<noteq> []"
  by (subst string_of_nat.simps) simp

lemma nat_of_digits_snoc:
  "nat_of_digits (ds @ [d]) = 10 * nat_of_digits ds + digit_value d"
  by (simp add: nat_of_digits_def)

lemma nat_of_digits_string_of_nat: "nat_of_digits (string_of_nat n) = n"
proof (induction n rule: string_of_nat.induct)
  case (1 n)
  show ?case
  proof (cases "n < 10")
    case True
    then show ?thesis
      by (subst string_of_nat.simps) (simp add: nat_of_digits_def digit_char_decimal)
  next
    case False
    with 1 show ?thesis
      by (subst string_of_nat.simps) (simp add: nat_of_digits_snoc digit_char_decimal)
  qed
qed

lemma string_of_nat_leading:
  "0 < n \<Longrightarrow> hd (string_of_nat n) \<noteq> CHR ''0''"
proof (induction n rule: string_of_nat.induct)
  case (1 n)
  show ?case
  proof (cases "n < 10")
    case True
    with 1(2) show ?thesis
      by (subst string_of_nat.simps) (simp add: digit_char_decimal)
  next
    case False
    then have "0 < n div 10" by simp
    with 1(1) False have "hd (string_of_nat (n div 10)) \<noteq> CHR ''0''" by simp
    with False show ?thesis
      by (subst string_of_nat.simps) (simp add: string_of_nat_nonempty)
  qed
qed

lemma string_of_nat_length: "1 < length (string_of_nat n) \<Longrightarrow> 0 < n"
  by (subst (asm) string_of_nat.simps) (auto split: if_splits)

lemma string_of_nat_no_leading_zero:
  "\<not> (1 < length (string_of_nat n) \<and> hd (string_of_nat n) = CHR ''0'')"
  using string_of_nat_leading string_of_nat_length by blast

lemma delimited_not_digit:
  "delimited rest \<Longrightarrow> rest = [] \<or> \<not> is_digit (hd rest)"
  by (auto simp: delimited_def is_digit_def split: list.splits)

lemma delimited_not_fraction:
  "delimited rest \<Longrightarrow>
     \<not> (rest \<noteq> [] \<and> (hd rest = CHR ''.'' \<or> hd rest = CHR ''e'' \<or> hd rest = CHR ''E''))"
  by (auto simp: delimited_def split: list.splits)

lemma takeWhile_digits:
  assumes "list_all is_digit ds" and "rest = [] \<or> \<not> is_digit (hd rest)"
  shows "takeWhile is_digit (ds @ rest) = ds" and "dropWhile is_digit (ds @ rest) = rest"
proof -
  from assms(1) have a: "\<forall>x\<in>set ds. is_digit x" by (simp add: list_all_iff)
  from assms(2) have t: "takeWhile is_digit rest = []"
    by (cases rest) auto
  from assms(2) have d: "dropWhile is_digit rest = rest"
    by (cases rest) auto
  from a t show "takeWhile is_digit (ds @ rest) = ds"
    by simp
  from a d show "dropWhile is_digit (ds @ rest) = rest"
    by simp
qed

lemma scan_digits_string_of_nat:
  assumes "delimited rest"
  shows "scan_digits neg (string_of_nat n @ rest) =
           Some (if neg then - int n else int n, rest)"
proof -
  let ?ds = "string_of_nat n"
  have dg: "list_all is_digit ?ds" by (rule string_of_nat_digits)
  have ne: "?ds \<noteq> []" by (rule string_of_nat_nonempty)
  from assms have r: "rest = [] \<or> \<not> is_digit (hd rest)" by (rule delimited_not_digit)
  note tw = takeWhile_digits [OF dg r]
  from assms have nf:
    "\<not> (rest \<noteq> [] \<and> (hd rest = CHR ''.'' \<or> hd rest = CHR ''e'' \<or> hd rest = CHR ''E''))"
    by (rule delimited_not_fraction)
  show ?thesis
    unfolding scan_digits_def Let_def tw
    using ne nf string_of_nat_no_leading_zero [of n]
    by (simp add: nat_of_digits_string_of_nat)
qed

lemma string_of_nat_head:
  "\<exists>c cs. string_of_nat n = c # cs \<and> is_digit c"
proof -
  have "list_all is_digit (string_of_nat n)" by (rule string_of_nat_digits)
  moreover have "string_of_nat n \<noteq> []" by (rule string_of_nat_nonempty)
  ultimately show ?thesis by (cases "string_of_nat n") auto
qed

lemma is_digit_not_minus: "is_digit c \<Longrightarrow> c \<noteq> CHR ''-''"
  by (auto simp: is_digit_def)

lemma scan_number_string_of_int:
  "delimited rest \<Longrightarrow> scan_number (string_of_int i @ rest) = Some (i, rest)"
proof (cases "i < 0")
  case True
  assume "delimited rest"
  then have "scan_digits True (string_of_nat (nat (- i)) @ rest) = Some (- int (nat (- i)), rest)"
    by (simp add: scan_digits_string_of_nat)
  with True show ?thesis
    by (simp add: string_of_int_def scan_number_def)
next
  case False
  assume d: "delimited rest"
  obtain c cs where h: "string_of_nat (nat i) = c # cs" "is_digit c"
    using string_of_nat_head by blast
  from d have "scan_digits False (string_of_nat (nat i) @ rest) = Some (int (nat i), rest)"
    by (simp add: scan_digits_string_of_nat)
  with False h is_digit_not_minus [OF h(2)] show ?thesis
    by (simp add: string_of_int_def scan_number_def)
qed

section \<open>Strings\<close>

lemma unicode_escape_char:
  "unicode_escape (CHR ''0'') (CHR ''0'')
     (digit_char (of_char c div 16)) (digit_char (of_char c mod 16)) = Some c"
proof -
  let ?n = "of_char c :: nat"
  have hi: "?n div 16 < 16" by (rule less_mult_imp_div_less) simp
  have lo: "?n mod 16 < 16" by simp
  have z: "hex_value (CHR ''0'') = Some 0" by (simp add: hex_value_def)
  have "char_of (16 * (?n div 16) + ?n mod 16) = c" by simp
  then show ?thesis
    by (simp add: unicode_escape_def z hex_value_digit_char [OF hi] hex_value_digit_char [OF lo])
qed

lemma scan_string_escape_char:
  "scan_string (escape_char c @ tail) = prepend c (scan_string tail)"
proof -
  consider (bs) "c = CHR 0x5C" | (qu) "c = CHR 0x22"
    | (pr) "c \<noteq> CHR 0x5C" "c \<noteq> CHR 0x22" "32 \<le> (of_char c :: nat)" "(of_char c :: nat) \<le> 126"
    | (b) "c = CHR 0x08" | (f) "c = CHR 0x0C" | (n) "c = CHR 0x0A" | (r) "c = CHR 0x0D"
    | (t) "c = CHR 0x09"
    | (u) "c \<noteq> CHR 0x5C" "c \<noteq> CHR 0x22" "\<not> (32 \<le> (of_char c :: nat) \<and> (of_char c :: nat) \<le> 126)"
        "c \<noteq> CHR 0x08" "c \<noteq> CHR 0x0C" "c \<noteq> CHR 0x0A" "c \<noteq> CHR 0x0D" "c \<noteq> CHR 0x09"
    by blast
  then show ?thesis
  proof cases
    case bs then show ?thesis by (simp add: escape_char_def unescape_def)
  next
    case qu then show ?thesis by (simp add: escape_char_def unescape_def)
  next
    case pr then show ?thesis by (simp add: escape_char_def)
  next
    case b then show ?thesis by (simp add: escape_char_def unescape_def)
  next
    case f then show ?thesis by (simp add: escape_char_def unescape_def)
  next
    case n then show ?thesis by (simp add: escape_char_def unescape_def)
  next
    case r then show ?thesis by (simp add: escape_char_def unescape_def)
  next
    case t then show ?thesis by (simp add: escape_char_def unescape_def)
  next
    case u then show ?thesis by (simp add: escape_char_def unicode_escape_char)
  qed
qed

lemma scan_string_escaped:
  "scan_string (concat (map escape_char s) @ CHR 0x22 # rest) = Some (s, rest)"
  by (induction s) (simp_all add: scan_string_escape_char prepend_def)

lemma scan_encode_string:
  "encode_string s @ rest = CHR 0x22 # concat (map escape_char s) @ CHR 0x22 # rest"
  by (simp add: encode_string_def)

section \<open>One step of the reader\<close>

lemma value_start_not_ws: "value_start c \<Longrightarrow> \<not> is_ws c"
  by (auto simp: value_start_def is_ws_def is_digit_def)

lemma value_start_not_close:
  "value_start c \<Longrightarrow> c \<noteq> CHR '']'' \<and> c \<noteq> CHR ''}''"
  by (auto simp: value_start_def is_digit_def)

lemma skip_ws_value_start: "value_start c \<Longrightarrow> skip_ws (c # cs) = c # cs"
  by (simp add: skip_ws_def value_start_not_ws)

lemma skip_ws_space: "skip_ws (CHR '' '' # s) = skip_ws s"
  by (simp add: skip_ws_def is_ws_def)

lemma skip_ws_punct:
  "skip_ws (CHR '','' # s) = CHR '','' # s"
  "skip_ws (CHR '':'' # s) = CHR '':'' # s"
  "skip_ws (CHR '']'' # s) = CHR '']'' # s"
  "skip_ws (CHR ''}'' # s) = CHR ''}'' # s"
  by (simp_all add: skip_ws_def is_ws_def)

lemma skip_ws_open:
  "skip_ws (CHR ''['' # s) = CHR ''['' # s"
  "skip_ws (CHR ''{'' # s) = CHR ''{'' # s"
  "skip_ws (CHR 0x22 # s) = CHR 0x22 # s"
  by (simp_all add: skip_ws_def is_ws_def)

lemma parse_value_space: "parse_value n (CHR '' '' # s) = parse_value n s"
  by (cases n) (simp_all add: skip_ws_space)

lemma parse_elements_space: "parse_elements n (CHR '' '' # s) = parse_elements n s"
  by (cases n) (simp_all add: parse_value_space)

lemma parse_members_space: "parse_members n (CHR '' '' # s) = parse_members n s"
  by (cases n) (simp_all add: skip_ws_space)

lemma parse_null: "parse_value (Suc m) (''null'' @ rest) = Some (PNone, rest)"
  by (simp add: skip_ws_def is_ws_def is_digit_def keyword_def)

lemma parse_true: "parse_value (Suc m) (''true'' @ rest) = Some (PBool True, rest)"
  by (simp add: skip_ws_def is_ws_def is_digit_def keyword_def)

lemma parse_false: "parse_value (Suc m) (''false'' @ rest) = Some (PBool False, rest)"
  by (simp add: skip_ws_def is_ws_def is_digit_def keyword_def)

lemma parse_string:
  "parse_value (Suc m) (encode_string s @ rest) = Some (PStr s, rest)"
  by (simp add: scan_encode_string skip_ws_def is_ws_def scan_string_escaped)

lemma string_of_int_head:
  "\<exists>c cs. string_of_int i = c # cs \<and> (c = CHR ''-'' \<or> is_digit c)"
  using string_of_nat_head [of "nat i"] by (auto simp: string_of_int_def)

lemma digit_or_minus_start:
  "c = CHR ''-'' \<or> is_digit c \<Longrightarrow>
     \<not> is_ws c \<and> c \<noteq> CHR 0x22 \<and> c \<noteq> CHR ''['' \<and> c \<noteq> CHR ''{''"
  by (auto simp: is_ws_def is_digit_def)

lemma parse_int:
  assumes "delimited rest"
  shows "parse_value (Suc m) (string_of_int i @ rest) = Some (PInt i, rest)"
proof -
  obtain c cs where h: "string_of_int i = c # cs" "c = CHR ''-'' \<or> is_digit c"
    using string_of_int_head by blast
  from assms have "scan_number (string_of_int i @ rest) = Some (i, rest)"
    by (rule scan_number_string_of_int)
  with h have sc: "scan_number (c # cs @ rest) = Some (i, rest)" by simp
  from h(2) have st: "\<not> is_ws c \<and> c \<noteq> CHR 0x22 \<and> c \<noteq> CHR ''['' \<and> c \<noteq> CHR ''{''"
    by (rule digit_or_minus_start)
  from h(2) st sc show ?thesis
    by (simp add: h(1) skip_ws_def)
qed

lemma parse_empty_list: "parse_value (Suc m) (''[]'' @ rest) = Some (PList [], rest)"
  by (simp add: skip_ws_def is_ws_def)

lemma parse_empty_dict: "parse_value (Suc m) (''{}'' @ rest) = Some (PDict [], rest)"
  by (simp add: skip_ws_def is_ws_def)

lemma parse_list:
  assumes "parse_elements m (c # cs) = Some (vs, rest)" and "value_start c"
  shows "parse_value (Suc m) (CHR ''['' # c # cs) = Some (PList vs, rest)"
  using assms value_start_not_close [of c]
  by (simp add: skip_ws_open skip_ws_value_start)

lemma parse_dict:
  assumes "parse_members m (CHR 0x22 # cs) = Some (kvs, rest)"
  shows "parse_value (Suc m) (CHR ''{'' # CHR 0x22 # cs) = Some (PDict kvs, rest)"
  using assms by (simp add: skip_ws_def is_ws_def)

lemma parse_elements_last:
  assumes "parse_value m s = Some (v, CHR '']'' # rest)"
  shows "parse_elements (Suc m) s = Some ([v], rest)"
  using assms by (simp add: skip_ws_punct)

lemma parse_elements_more:
  assumes "parse_value m s = Some (v, CHR '','' # CHR '' '' # r)"
    and "parse_elements m r = Some (vs, rest)"
  shows "parse_elements (Suc m) s = Some (v # vs, rest)"
  using assms by (simp add: skip_ws_punct parse_elements_space)

lemma parse_members_last:
  assumes "parse_value m s = Some (v, CHR ''}'' # rest)"
  shows "parse_members (Suc m) (encode_string k @ '': '' @ s) = Some ([(k, v)], rest)"
  using assms
  by (simp add: scan_encode_string skip_ws_def is_ws_def scan_string_escaped
      parse_value_space)

lemma parse_members_more:
  assumes "parse_value m s = Some (v, CHR '','' # CHR '' '' # r)"
    and "parse_members m r = Some (kvs, rest)"
  shows "parse_members (Suc m) (encode_string k @ '': '' @ s) = Some ((k, v) # kvs, rest)"
  using assms
  by (simp add: scan_encode_string skip_ws_def is_ws_def scan_string_escaped
      parse_value_space parse_members_space)

section \<open>Reading back what \<^verbatim>\<open>json.dumps\<close> wrote\<close>

lemma encode_string_head: "\<exists>cs. encode_string s = CHR 0x22 # cs"
  by (simp add: encode_string_def)

lemma dumps_start:
  "json_dumps v = Inr s \<Longrightarrow> \<exists>c cs. s = c # cs \<and> value_start c"
proof (cases v)
  case (PInt i)
  assume "json_dumps v = Inr s"
  with PInt string_of_int_head [of i] show ?thesis
    by (auto simp: value_start_def)
next
  case (PStr x)
  assume "json_dumps v = Inr s"
  with PStr show ?thesis
    by (auto simp: value_start_def encode_string_def)
qed (auto simp: value_start_def split: sum.splits if_splits)

lemma dumps_items_start:
  assumes "dumps_items vs = Inr t" and "vs \<noteq> []"
  shows "\<exists>c cs. t = c # cs \<and> value_start c"
proof (cases vs)
  case Nil
  with assms(2) show ?thesis by simp
next
  case (Cons v ws)
  show ?thesis
  proof (cases ws)
    case Nil
    with \<open>vs = v # ws\<close> assms(1) show ?thesis using dumps_start [of v t] by simp
  next
    case (Cons w us)
    with \<open>vs = v # ws\<close> assms(1) obtain s r where
      "json_dumps v = Inr s" "t = s @ '', '' @ r"
      by (auto split: sum.splits)
    with dumps_start [of v s] show ?thesis by auto
  qed
qed

lemma dumps_members_start:
  assumes "dumps_members kvs = Inr t" and "kvs \<noteq> []"
  shows "\<exists>cs. t = CHR 0x22 # cs"
proof (cases kvs)
  case Nil
  with assms(2) show ?thesis by simp
next
  case (Cons kv ws)
  obtain k v where kv: "kv = (k, v)" by (cases kv)
  obtain ks where ks: "encode_string k = CHR 0x22 # ks"
    using encode_string_head by blast
  show ?thesis
  proof (cases ws)
    case Nil
    with Cons kv assms(1) ks show ?thesis by (auto split: sum.splits)
  next
    case (Cons w us)
    with \<open>kvs = kv # ws\<close> kv assms(1) ks show ?thesis by (auto split: sum.splits)
  qed
qed

lemma delimited_punct:
  "delimited (CHR '','' # s)" "delimited (CHR '']'' # s)" "delimited (CHR ''}'' # s)"
  by (simp_all add: delimited_def)

declare parse_value.simps [simp del] parse_elements.simps [simp del]
  parse_members.simps [simp del]

lemma parse_dumps:
  shows "json_dumps v = Inr s \<Longrightarrow> length s < n \<Longrightarrow> delimited rest \<Longrightarrow>
           parse_value n (s @ rest) = Some (v, rest)"
    and "dumps_items vs = Inr t \<Longrightarrow> vs \<noteq> [] \<Longrightarrow> Suc (length t) < n \<Longrightarrow>
           parse_elements n (t @ CHR '']'' # rest) = Some (vs, rest)"
    and "dumps_members kvs = Inr t \<Longrightarrow> kvs \<noteq> [] \<Longrightarrow> Suc (length t) < n \<Longrightarrow>
           parse_members n (t @ CHR ''}'' # rest) = Some (kvs, rest)"
proof (induction v and vs and kvs arbitrary: s n rest and t n rest and t n rest
    rule: json_dumps_dumps_items_dumps_members.induct)
  case 1
  from 1(2) obtain m where "n = Suc m" by (cases n) auto
  with 1(1) show ?case using parse_null [of m rest] by auto
next
  case (2 b)
  from 2(2) obtain m where "n = Suc m" by (cases n) auto
  with 2(1) show ?case using parse_true [of m rest] parse_false [of m rest]
    by (cases b) auto
next
  case (3 i)
  from 3(2) obtain m where "n = Suc m" by (cases n) auto
  with 3(1,3) show ?case using parse_int [of rest m i] by auto
next
  case (4 x)
  from 4(2) obtain m where "n = Suc m" by (cases n) auto
  with 4(1) show ?case using parse_string [of m x rest] by auto
next
  case (5 vs)
  from 5(3) obtain m where n: "n = Suc m" by (cases n) auto
  from 5(2) obtain t where t: "dumps_items vs = Inr t" "s = CHR ''['' # t @ '']''"
    by (auto split: sum.splits)
  show ?case
  proof (cases "vs = []")
    case True
    with t have "s = ''[]''" by simp
    with True n show ?thesis using parse_empty_list [of m rest] by simp
  next
    case False
    from t(2) 5(3) n have "Suc (length t) < m" by simp
    with 5(1) t(1) False have pe: "parse_elements m (t @ CHR '']'' # rest) = Some (vs, rest)"
      by blast
    from t(1) False obtain c cs where c: "t = c # cs" "value_start c"
      using dumps_items_start by blast
    from pe c have "parse_value (Suc m) (CHR ''['' # c # cs @ CHR '']'' # rest) = Some (PList vs, rest)"
      using parse_list [of m c "cs @ CHR '']'' # rest" vs rest] by simp
    with n t(2) c(1) show ?thesis by simp
  qed
next
  case (6 kvs)
  from 6(3) obtain m where n: "n = Suc m" by (cases n) auto
  from 6(2) obtain t where t: "dumps_members kvs = Inr t" "s = CHR ''{'' # t @ ''}''"
    by (auto split: sum.splits)
  show ?case
  proof (cases "kvs = []")
    case True
    with t have "s = ''{}''" by simp
    with True n show ?thesis using parse_empty_dict [of m rest] by simp
  next
    case False
    from t(2) 6(3) n have "Suc (length t) < m" by simp
    with 6(1) t(1) False have pe: "parse_members m (t @ CHR ''}'' # rest) = Some (kvs, rest)"
      by blast
    from t(1) False obtain cs where c: "t = CHR 0x22 # cs"
      using dumps_members_start by blast
    from pe c have "parse_value (Suc m) (CHR ''{'' # CHR 0x22 # cs @ CHR ''}'' # rest) = Some (PDict kvs, rest)"
      using parse_dict [of m "cs @ CHR ''}'' # rest" kvs rest] by simp
    with n t(2) c show ?thesis by simp
  qed
next
  case (7 cls)
  then show ?case by simp
next
  case 8
  then show ?case by simp
next
  case (9 v)
  from 9(4) obtain m where n: "n = Suc m" by (cases n) auto
  from 9(2) have d: "json_dumps v = Inr t" by simp
  from 9(4) n have "length t < m" by simp
  with 9(1) [OF d] have "parse_value m (t @ CHR '']'' # rest) = Some (v, CHR '']'' # rest)"
    by (simp add: delimited_punct)
  then show ?case unfolding n by (rule parse_elements_last)
next
  case (10 v w vs)
  from 10(5) obtain m where n: "n = Suc m" by (cases n) auto
  from 10(3) obtain sv r where d: "json_dumps v = Inr sv" "dumps_items (w # vs) = Inr r"
    "t = sv @ '', '' @ r"
    by (auto split: sum.splits)
  from d(3) 10(5) n have l: "length sv < m" "Suc (length r) < m" by simp_all
  from 10(1) [OF d(1) l(1)] have
    pv: "parse_value m (sv @ CHR '','' # CHR '' '' # r @ CHR '']'' # rest) =
           Some (v, CHR '','' # CHR '' '' # r @ CHR '']'' # rest)"
    by (simp add: delimited_punct)
  from 10(2) [OF d(1) d(2) _ l(2)] have
    pe: "parse_elements m (r @ CHR '']'' # rest) = Some (w # vs, rest)"
    by simp
  from pv pe have "parse_elements (Suc m) (sv @ CHR '','' # CHR '' '' # r @ CHR '']'' # rest) =
      Some (v # w # vs, rest)"
    by (rule parse_elements_more)
  with n d(3) show ?case by simp
next
  case 11
  then show ?case by simp
next
  case (12 k v)
  from 12(4) obtain m where n: "n = Suc m" by (cases n) auto
  from 12(2) obtain sv where d: "json_dumps v = Inr sv" "t = encode_string k @ '': '' @ sv"
    by (auto split: sum.splits)
  from d(2) 12(4) n have "length sv < m" by simp
  with 12(1) [OF d(1)] have
    "parse_value m (sv @ CHR ''}'' # rest) = Some (v, CHR ''}'' # rest)"
    by (simp add: delimited_punct)
  then have "parse_members (Suc m) (encode_string k @ '': '' @ sv @ CHR ''}'' # rest) =
      Some ([(k, v)], rest)"
    by (rule parse_members_last)
  with n d(2) show ?case by simp
next
  case (13 k v kv kvs)
  from 13(5) obtain m where n: "n = Suc m" by (cases n) auto
  from 13(3) obtain sv r where d: "json_dumps v = Inr sv" "dumps_members (kv # kvs) = Inr r"
    "t = encode_string k @ '': '' @ sv @ '', '' @ r"
    by (auto split: sum.splits)
  from d(3) 13(5) n have l: "length sv < m" "Suc (length r) < m" by simp_all
  from 13(1) [OF d(1) l(1)] have
    pv: "parse_value m (sv @ CHR '','' # CHR '' '' # r @ CHR ''}'' # rest) =
           Some (v, CHR '','' # CHR '' '' # r @ CHR ''}'' # rest)"
    by (simp add: delimited_punct)
  from 13(2) [OF d(1) d(2) _ l(2)] have
    pe: "parse_members m (r @ CHR ''}'' # rest) = Some (kv # kvs, rest)"
    by simp
  from pv pe have
    "parse_members (Suc m)
       (encode_string k @ '': '' @ sv @ CHR '','' # CHR '' '' # r @ CHR ''}'' # rest) =
     Some ((k, v) # kv # kvs, rest)"
    by (rule parse_members_more)
  with n d(3) show ?case by simp
qed

lemma json_loads_dumps: "json_dumps v = Inr s \<Longrightarrow> json_loads s = Some v"
  using parse_dumps(1) [of v s "Suc (length s)" "[]"]
  by (simp add: json_loads_def delimited_def skip_ws_def)

section \<open>Properties of the handler\<close>

lemma encode_error_key: \<open>encode_string ''error'' = ''"error"''\<close>
  by (simp add: encode_string_def escape_char_def)

lemma dumps_error_object:
  \<open>json_dumps (PDict [(''error'', PStr m)]) = Inr (''{"error": '' @ encode_string m @ ''}'')\<close>
  by (simp add: encode_error_key)

lemma except_body_eq:
  \<open>except_body e =
     Inr \<lparr>statusCode = 500,
          headers = [(''Content-Type'', ''application/json''),
                     (''Access-Control-Allow-Origin'', ''*'')],
          body = ''{"error": '' @ encode_string (exn_str e) @ ''}''\<rparr>\<close>
  unfolding except_body_def dumps_error_object by simp

lemma handler_cases:
  "fst (lambda_handler scan event context s) =
     (case try_body (fst (scan [] s)) of Inl e \<Rightarrow> except_body e | Inr env \<Rightarrow> Inr env)"
  by (simp add: lambda_handler_def split: prod.splits)

lemma try_body_ok:
  "try_body outcome = Inr env \<Longrightarrow>
     statusCode env = 200 \<and>
     headers env = [(''Content-Type'', ''application/json''),
                    (''Access-Control-Allow-Origin'', ''*'')]"
  by (auto simp: try_body_def split: sum.splits)

lemma handler_returns:
  "\<exists>env. fst (lambda_handler scan event context s) = Inr env"
  by (simp add: handler_cases except_body_eq split: sum.splits)

lemma handler_failure:
  "try_body (fst (scan [] s)) = Inl e \<Longrightarrow>
     fst (lambda_handler scan event context s) = Inr (failure_envelope e)"
  by (simp add: handler_cases except_body_eq)

lemma handler_success:
  "try_body (fst (scan [] s)) = Inr env \<Longrightarrow>
     fst (lambda_handler scan event context s) = Inr env"
  by (simp add: handler_cases)

text \<open>
  Claim C2. No exception leaves the handler: whatever the scan does, the handler
  returns an envelope; and when the scan raises, when the response has no
  \<^verbatim>\<open>Items\<close>, or when \<^verbatim>\<open>json.dumps\<close> raises on the items, that envelope is the 500
  envelope carrying \<^verbatim>\<open>str(e)\<close> of the exception.
\<close>

theorem handler_never_raises:
  "\<exists>env. fst (lambda_handler scan event context s) = Inr env \<and>
     (\<forall>e. fst (scan [] s) = Inl e \<longrightarrow> env = failure_envelope e) \<and>
     (\<forall>r e. fst (scan [] s) = Inr r \<and> getitem r ''Items'' = Inl e \<longrightarrow>
        env = failure_envelope e) \<and>
     (\<forall>r items e. fst (scan [] s) = Inr r \<and> getitem r ''Items'' = Inr items \<and>
        json_dumps items = Inl e \<longrightarrow> env = failure_envelope e)"
proof (cases "try_body (fst (scan [] s))")
  case (Inl e)
  then have "fst (lambda_handler scan event context s) = Inr (failure_envelope e)"
    by (rule handler_failure)
  moreover from Inl have "\<forall>e'. fst (scan [] s) = Inl e' \<longrightarrow> e' = e"
    by (auto simp: try_body_def)
  moreover from Inl have
    "\<forall>r e'. fst (scan [] s) = Inr r \<and> getitem r ''Items'' = Inl e' \<longrightarrow> e' = e"
    by (auto simp: try_body_def)
  moreover from Inl have
    "\<forall>r items e'. fst (scan [] s) = Inr r \<and> getitem r ''Items'' = Inr items \<and>
        json_dumps items = Inl e' \<longrightarrow> e' = e"
    by (auto simp: try_body_def)
  ultimately show ?thesis by auto
next
  case (Inr env)
  then have "fst (lambda_handler scan event context s) = Inr env"
    by (rule handler_success)
  moreover from Inr have "\<forall>e. fst (scan [] s) \<noteq> Inl e"
    by (auto simp: try_body_def)
  moreover from Inr have
    "\<forall>r e. \<not> (fst (scan [] s) = Inr r \<and> getitem r ''Items'' = Inl e)"
    by (auto simp: try_body_def)
  moreover from Inr have
    "\<forall>r items e. \<not> (fst (scan [] s) = Inr r \<and> getitem r ''Items'' = Inr items \<and>
        json_dumps items = Inl e)"
    by (auto simp: try_body_def)
  ultimately show ?thesis by auto
qed

theorem handler_never_raises_witness:
  \<open>fst (lambda_handler table_scan (0::nat) (0::nat)
          \<lparr>rows = [], page_limit = 1,
           faults = [([], PyExn ''ClientError'' ''denied'')]\<rparr>) =
     Inr \<lparr>statusCode = 500, headers = fixed_headers, body = ''{"error": "denied"}''\<rparr>\<close>
  using handler_never_raises [of table_scan "0::nat" "0::nat"
      "\<lparr>rows = [], page_limit = 1, faults = [([], PyExn ''ClientError'' ''denied'')]\<rparr>"]
  by (auto simp: table_scan_def encode_string_def escape_char_def)

text \<open>
  Claim C4. Every envelope the handler returns, with status 200 or 500, has exactly the
  two headers \<^verbatim>\<open>Content-Type: application/json\<close> and
  \<^verbatim>\<open>Access-Control-Allow-Origin: *\<close>.
\<close>

theorem fixed_headers_always:
  "\<exists>env. fst (lambda_handler scan event context s) = Inr env \<and>
     headers env = [(''Content-Type'', ''application/json''),
                    (''Access-Control-Allow-Origin'', ''*'')]"
  by (auto simp: handler_cases except_body_eq split: sum.splits dest: try_body_ok)

theorem fixed_headers_always_witness:
  "\<exists>env. fst (lambda_handler table_scan (0::nat) (0::nat)
            \<lparr>rows = [[(''id'', PStr ''a'')], [(''id'', PStr ''b'')]],
        page_limit = 1, faults = []\<rparr>) = Inr env \<and>
     headers env = fixed_headers"
  by (rule fixed_headers_always)

text \<open>
  Claim C10. The status code of every envelope the handler returns is 200 or 500.
\<close>

theorem status_200_or_500:
  "\<exists>env. fst (lambda_handler scan event context s) = Inr env \<and>
     (statusCode env = 200 \<or> statusCode env = 500)"
  by (auto simp: handler_cases except_body_eq split: sum.splits dest: try_body_ok)

theorem status_200_or_500_witness:
  "\<exists>env. fst (lambda_handler table_scan (0::nat) (0::nat)
            \<lparr>rows = [[(''id'', PStr ''a'')], [(''id'', PStr ''b'')]],
        page_limit = 1, faults = []\<rparr>) = Inr env \<and>
     (statusCode env = 200 \<or> statusCode env = 500)"
  by (rule status_200_or_500)

text \<open>
  Claim C9. The result of the handler is the same for any two events and contexts,
  given the same table client and the same state of the store.
\<close>

theorem request_not_consumed:
  "lambda_handler scan event context s = lambda_handler scan event' context' s"
  by (simp add: lambda_handler_def)

theorem request_not_consumed_witness:
  "lambda_handler table_scan (0::nat) True
     \<lparr>rows = [[(''id'', PStr ''a'')], [(''id'', PStr ''b'')]],
        page_limit = 1, faults = []\<rparr> =
   lambda_handler table_scan ''GET /items'' [1::int, 2]
     \<lparr>rows = [[(''id'', PStr ''a'')], [(''id'', PStr ''b'')]],
        page_limit = 1, faults = []\<rparr>"
  by (rule request_not_consumed)

lemma table_scan_state: "snd (table_scan kwargs t) = t"
  by (simp add: table_scan_def split: option.splits)

text \<open>
  Claim C8. The handler acts on the store through one call of \<^verbatim>\<open>scan\<close> and nothing
  else: the state it leaves is the state that call leaves, and on the backing table,
  where a scan writes nothing, the state after the handler is the state before, whether
  the handler answers 200 or 500.
\<close>

theorem table_unchanged:
  "snd (lambda_handler scan event context s) = snd (scan [] s) \<and>
   snd (lambda_handler table_scan event context t) = t"
proof -
  have g: "snd (lambda_handler sc event context u) = snd (sc [] u)"
    for sc :: "'u scan_api" and u
    by (simp add: lambda_handler_def split: prod.splits)
  show ?thesis by (simp add: g table_scan_state)
qed

theorem table_unchanged_witness:
  "snd (lambda_handler table_scan (0::nat) (0::nat)
          \<lparr>rows = [[(''id'', PStr ''a'')], [(''id'', PStr ''b'')]],
        page_limit = 1, faults = []\<rparr>) =
     \<lparr>rows = [[(''id'', PStr ''a'')], [(''id'', PStr ''b'')]],
        page_limit = 1, faults = []\<rparr>"
  using table_unchanged [of table_scan "0::nat" "0::nat"
      "\<lparr>rows = [[(''id'', PStr ''a'')], [(''id'', PStr ''b'')]],
        page_limit = 1, faults = []\<rparr>"
      "\<lparr>rows = [[(''id'', PStr ''a'')], [(''id'', PStr ''b'')]],
        page_limit = 1, faults = []\<rparr>"]
  by (rule conjunct2)

lemma try_body_no_items:
  "outcome = Inr response \<Longrightarrow> map_of response ''Items'' = Some (PList []) \<Longrightarrow>
     try_body outcome = Inr \<lparr>statusCode = 200, headers = fixed_headers, body = ''[]''\<rparr>"
  by (simp add: try_body_def getitem_def)

lemma table_scan_empty:
  "rows t = [] \<Longrightarrow> map_of (faults t) [] = None \<Longrightarrow>
     fst (table_scan [] t) =
       Inr [(''Items'', PList []), (''Count'', PInt 0), (''ScannedCount'', PInt 0)]"
  by (simp add: table_scan_def scan_page_def start_of_def)

text \<open>
  Claim C7. When the scan returns an empty list of items, the handler returns status
  200 with the body \<^verbatim>\<open>[]\<close>; an empty table whose first request does not fail gives
  that response, with no continuation token.
\<close>

theorem empty_table_body:
  "(fst (scan [] s) = Inr response \<and> map_of response ''Items'' = Some (PList []) \<longrightarrow>
      fst (lambda_handler scan event context s) =
        Inr \<lparr>statusCode = 200, headers = fixed_headers, body = ''[]''\<rparr>) \<and>
   (rows t = [] \<and> map_of (faults t) [] = None \<longrightarrow>
      fst (table_scan [] t) =
        Inr [(''Items'', PList []), (''Count'', PInt 0), (''ScannedCount'', PInt 0)] \<and>
      fst (lambda_handler table_scan event' context' t) =
        Inr \<lparr>statusCode = 200, headers = fixed_headers, body = ''[]''\<rparr>)"
proof (intro conjI impI)
  assume a: "fst (scan [] s) = Inr response \<and> map_of response ''Items'' = Some (PList [])"
  then show "fst (lambda_handler scan event context s) =
      Inr \<lparr>statusCode = 200, headers = fixed_headers, body = ''[]''\<rparr>"
    by (intro handler_success try_body_no_items) auto
next
  assume b: "rows t = [] \<and> map_of (faults t) [] = None"
  then show c: "fst (table_scan [] t) =
      Inr [(''Items'', PList []), (''Count'', PInt 0), (''ScannedCount'', PInt 0)]"
    by (simp add: table_scan_empty)
  show "fst (lambda_handler table_scan event' context' t) =
      Inr \<lparr>statusCode = 200, headers = fixed_headers, body = ''[]''\<rparr>"
    by (rule handler_success, rule try_body_no_items, rule c) simp
qed

theorem empty_table_body_witness:
  "fst (lambda_handler table_scan (0::nat) (0::nat)
          \<lparr>rows = [], page_limit = 1, faults = []\<rparr>) =
     Inr \<lparr>statusCode = 200, headers = fixed_headers, body = ''[]''\<rparr>"
  using empty_table_body [of table_scan "\<lparr>rows = [], page_limit = 1, faults = []\<rparr>"
      "[(''Items'', PList []), (''Count'', PInt 0), (''ScannedCount'', PInt 0)]"
      "0::nat" "0::nat" "\<lparr>rows = [], page_limit = 1, faults = []\<rparr>" "0::nat" "0::nat"]
  by (simp add: table_scan_def scan_page_def start_of_def)

lemma loads_error_object:
  \<open>json_loads (''{"error": '' @ encode_string m @ ''}'') = Some (PDict [(''error'', PStr m)])\<close>
  by (rule json_loads_dumps) (simp add: encode_error_key)

lemma try_body_Inr:
  "try_body outcome = Inr env \<longleftrightarrow>
     (\<exists>r items b. outcome = Inr r \<and> getitem r ''Items'' = Inr items \<and>
        json_dumps items = Inr b \<and>
        env = \<lparr>statusCode = 200, headers = fixed_headers, body = b\<rparr>)"
  by (auto simp: try_body_def split: sum.splits)

lemma table_scan_items:
  "map_of (faults t) [] = None \<Longrightarrow>
     \<exists>r. fst (table_scan [] t) = Inr r \<and>
       getitem r ''Items'' = Inr (PList (map PDict (take (page_limit t) (rows t))))"
  by (simp add: table_scan_def scan_page_def start_of_def getitem_def Let_def)

lemma table_scan_fault:
  "map_of (faults t) [] = Some e \<Longrightarrow> fst (table_scan [] t) = Inl e"
  by (simp add: table_scan_def)

lemma handler_body_cases:
  "\<exists>env. fst (lambda_handler scan event context s) = Inr env \<and>
     ((statusCode env = 200 \<and>
       (\<exists>r items. fst (scan [] s) = Inr r \<and> getitem r ''Items'' = Inr items \<and>
          json_dumps items = Inr (body env))) \<or>
      (statusCode env = 500 \<and>
       (\<exists>e. body env = ''{'' @ encode_string ''error'' @ '': '' @ encode_string (exn_str e) @ ''}'')))"
proof (cases "try_body (fst (scan [] s))")
  case (Inl e)
  then have "fst (lambda_handler scan event context s) = Inr (failure_envelope e)"
    by (rule handler_failure)
  then show ?thesis by (auto simp: encode_error_key)
next
  case (Inr env)
  then have "fst (lambda_handler scan event context s) = Inr env"
    by (rule handler_success)
  with Inr show ?thesis by (auto simp: try_body_Inr)
qed

text \<open>
  Claim C5. The body of every envelope the handler returns is JSON text that the reader
  accepts. With status 200 it reads back as the value the scan delivered under
  \<^verbatim>\<open>Items\<close>, which for the backing table is the list of the records of the first page,
  each a dictionary; with status 500 it reads back as a dictionary with the single key
  \<^verbatim>\<open>error\<close> and a string as its value.
\<close>

theorem body_is_json:
  "(\<exists>env. fst (lambda_handler scan event context s) = Inr env \<and>
      ((statusCode env = 200 \<and>
        (\<exists>r items. fst (scan [] s) = Inr r \<and> getitem r ''Items'' = Inr items \<and>
           json_loads (body env) = Some items)) \<or>
       (statusCode env = 500 \<and>
        (\<exists>msg. json_loads (body env) = Some (PDict [(''error'', PStr msg)]))))) \<and>
   (\<exists>env. fst (lambda_handler table_scan event context t) = Inr env \<and>
      ((statusCode env = 200 \<and>
        json_loads (body env) = Some (PList (map PDict (take (page_limit t) (rows t))))) \<or>
       (statusCode env = 500 \<and>
        (\<exists>msg. json_loads (body env) = Some (PDict [(''error'', PStr msg)])))))"
proof
  have g: "\<exists>env. fst (lambda_handler sc event context u) = Inr env \<and>
      ((statusCode env = 200 \<and>
        (\<exists>r items. fst (sc [] u) = Inr r \<and> getitem r ''Items'' = Inr items \<and>
           json_loads (body env) = Some items)) \<or>
       (statusCode env = 500 \<and>
        (\<exists>msg. json_loads (body env) = Some (PDict [(''error'', PStr msg)]))))"
    for sc :: "'u scan_api" and u
  proof -
    obtain env where env: "fst (lambda_handler sc event context u) = Inr env"
      and c: "(statusCode env = 200 \<and>
         (\<exists>r items. fst (sc [] u) = Inr r \<and> getitem r ''Items'' = Inr items \<and>
            json_dumps items = Inr (body env))) \<or>
        (statusCode env = 500 \<and>
         (\<exists>e. body env =
            ''{'' @ encode_string ''error'' @ '': '' @ encode_string (exn_str e) @ ''}''))"
      using handler_body_cases [of sc event "context" u] by blast
    from c show ?thesis
    proof
      assume "statusCode env = 200 \<and>
         (\<exists>r items. fst (sc [] u) = Inr r \<and> getitem r ''Items'' = Inr items \<and>
            json_dumps items = Inr (body env))"
      with env show ?thesis by (blast dest: json_loads_dumps)
    next
      assume "statusCode env = 500 \<and>
         (\<exists>e. body env =
            ''{'' @ encode_string ''error'' @ '': '' @ encode_string (exn_str e) @ ''}'')"
      then obtain e where s5: "statusCode env = 500"
        and b: "body env =
            ''{'' @ encode_string ''error'' @ '': '' @ encode_string (exn_str e) @ ''}''"
        by blast
      have "json_loads (body env) = Some (PDict [(''error'', PStr (exn_str e))])"
        unfolding b by (rule json_loads_dumps) simp
      with env s5 show ?thesis by blast
    qed
  qed
  show "\<exists>env. fst (lambda_handler scan event context s) = Inr env \<and>
      ((statusCode env = 200 \<and>
        (\<exists>r items. fst (scan [] s) = Inr r \<and> getitem r ''Items'' = Inr items \<and>
           json_loads (body env) = Some items)) \<or>
       (statusCode env = 500 \<and>
        (\<exists>msg. json_loads (body env) = Some (PDict [(''error'', PStr msg)]))))"
    by (rule g)
  obtain env where env: "fst (lambda_handler table_scan event context t) = Inr env"
    and c: "(statusCode env = 200 \<and>
        (\<exists>r items. fst (table_scan [] t) = Inr r \<and> getitem r ''Items'' = Inr items \<and>
           json_loads (body env) = Some items)) \<or>
       (statusCode env = 500 \<and>
        (\<exists>msg. json_loads (body env) = Some (PDict [(''error'', PStr msg)])))"
    using g [of table_scan t] by blast
  from c have "(statusCode env = 200 \<and>
        json_loads (body env) = Some (PList (map PDict (take (page_limit t) (rows t))))) \<or>
       (statusCode env = 500 \<and>
        (\<exists>msg. json_loads (body env) = Some (PDict [(''error'', PStr msg)])))"
  proof
    assume "statusCode env = 200 \<and>
        (\<exists>r items. fst (table_scan [] t) = Inr r \<and> getitem r ''Items'' = Inr items \<and>
           json_loads (body env) = Some items)"
    then obtain r items where h: "statusCode env = 200" "fst (table_scan [] t) = Inr r"
      "getitem r ''Items'' = Inr items" "json_loads (body env) = Some items"
      by blast
    from h(2) have "map_of (faults t) [] = None"
      by (cases "map_of (faults t) []") (simp_all add: table_scan_def)
    with table_scan_items [of t] h(2,3)
    have "items = PList (map PDict (take (page_limit t) (rows t)))" by auto
    with h(1,4) show ?thesis by simp
  next
    assume "statusCode env = 500 \<and>
        (\<exists>msg. json_loads (body env) = Some (PDict [(''error'', PStr msg)]))"
    then show ?thesis by blast
  qed
  with env show "\<exists>env. fst (lambda_handler table_scan event context t) = Inr env \<and>
      ((statusCode env = 200 \<and>
        json_loads (body env) = Some (PList (map PDict (take (page_limit t) (rows t))))) \<or>
       (statusCode env = 500 \<and>
        (\<exists>msg. json_loads (body env) = Some (PDict [(''error'', PStr msg)]))))"
    by blast
qed

theorem body_is_json_witness:
  \<open>json_loads ''[{"id": "a"}]'' = Some (PList [PDict [(''id'', PStr ''a'')]])\<close>
  using body_is_json [of table_scan "0::nat" "0::nat"
      "\<lparr>rows = [[(''id'', PStr ''a'')], [(''id'', PStr ''b'')]],
        page_limit = 1, faults = []\<rparr>"
      "\<lparr>rows = [[(''id'', PStr ''a'')], [(''id'', PStr ''b'')]],
        page_limit = 1, faults = []\<rparr>"]
  by (simp add: lambda_handler_def table_scan_def scan_page_def start_of_def try_body_def
      getitem_def encode_string_def escape_char_def)

text \<open>
  Claim C6. When the first page request raises \<^verbatim>\<open>e\<close>, the handler returns status 500
  and the body \<^verbatim>\<open>{"error": ...}\<close> holding \<^verbatim>\<open>str(e)\<close> as a JSON string: the body reads
  back as the dictionary with the key \<^verbatim>\<open>error\<close> and the value \<^verbatim>\<open>str(e)\<close>.
\<close>

theorem first_page_error:
  \<open>fst (scan [] s) = Inl e \<Longrightarrow>
     fst (lambda_handler scan event context s) =
       Inr \<lparr>statusCode = 500, headers = fixed_headers,
            body = ''{"error": '' @ encode_string (exn_str e) @ ''}''\<rparr> \<and>
     json_loads (''{"error": '' @ encode_string (exn_str e) @ ''}'') =
       Some (PDict [(''error'', PStr (exn_str e))])\<close>
proof
  assume "fst (scan [] s) = Inl e"
  then have "try_body (fst (scan [] s)) = Inl e" by (simp add: try_body_def)
  then show \<open>fst (lambda_handler scan event context s) =
       Inr \<lparr>statusCode = 500, headers = fixed_headers,
            body = ''{"error": '' @ encode_string (exn_str e) @ ''}''\<rparr>\<close>
    by (rule handler_failure)
  show \<open>json_loads (''{"error": '' @ encode_string (exn_str e) @ ''}'') =
       Some (PDict [(''error'', PStr (exn_str e))])\<close>
    by (rule loads_error_object)
qed

theorem first_page_error_witness:
  \<open>fst (lambda_handler table_scan (0::nat) (0::nat)
          \<lparr>rows = [[(''id'', PStr ''a'')]], page_limit = 1,
           faults = [([], PyExn ''ClientError'' ''timeout'')]\<rparr>) =
     Inr \<lparr>statusCode = 500, headers = fixed_headers,
          body = ''{"error": "timeout"}''\<rparr> \<and>
   json_loads ''{"error": "timeout"}'' = Some (PDict [(''error'', PStr ''timeout'')])\<close>
  using first_page_error [of table_scan
      "\<lparr>rows = [[(''id'', PStr ''a'')]], page_limit = 1,
        faults = [([], PyExn ''ClientError'' ''timeout'')]\<rparr>"
      "PyExn ''ClientError'' ''timeout''" "0::nat" "0::nat"]
  by (simp add: table_scan_def encode_string_def escape_char_def)

lemma handler_200:
  assumes "fst (lambda_handler scan event context s) = Inr env" and "statusCode env = 200"
  shows "try_body (fst (scan [] s)) = Inr env"
proof (cases "try_body (fst (scan [] s))")
  case (Inl e)
  then have "fst (lambda_handler scan event context s) = Inr (failure_envelope e)"
    by (rule handler_failure)
  with assms show ?thesis by auto
next
  case (Inr env')
  then have "fst (lambda_handler scan event context s) = Inr env'"
    by (rule handler_success)
  with assms(1) Inr show ?thesis by simp
qed

lemma table_first_page:
  assumes "map_of (faults t) [] = None"
  shows "try_body (fst (table_scan [] t)) =
     (case json_dumps (PList (map PDict (take (page_limit t) (rows t)))) of
        Inl e \<Rightarrow> Inl e
      | Inr b \<Rightarrow> Inr \<lparr>statusCode = 200, headers = fixed_headers, body = b\<rparr>)"
proof -
  obtain r where r: "fst (table_scan [] t) = Inr r"
    "getitem r ''Items'' = Inr (PList (map PDict (take (page_limit t) (rows t))))"
    using table_scan_items [OF assms] by blast
  then show ?thesis by (simp add: try_body_def)
qed

text \<open>
  Claim C1, as the code has it. The handler calls \<^verbatim>\<open>scan\<close> once and follows no
  continuation token: when it answers 200, the body is the JSON array of the records
  of the first page, in the order of the table, and it holds every record of the table
  when the table fits in one page.
\<close>

theorem first_page_body:
  assumes "fst (lambda_handler table_scan event context t) = Inr env"
    and "statusCode env = 200"
  shows "json_dumps (PList (map PDict (take (page_limit t) (rows t)))) = Inr (body env) \<and>
     json_loads (body env) = Some (PList (map PDict (take (page_limit t) (rows t)))) \<and>
     (length (rows t) \<le> page_limit t \<longrightarrow>
        json_loads (body env) = Some (PList (map PDict (rows t))))"
proof -
  from assms have tb: "try_body (fst (table_scan [] t)) = Inr env"
    by (rule handler_200)
  have f: "map_of (faults t) [] = None"
  proof (cases "map_of (faults t) []")
    case (Some e)
    then have "fst (table_scan [] t) = Inl e" by (rule table_scan_fault)
    with tb show ?thesis by (simp add: try_body_def)
  qed
  from tb table_first_page [OF f]
  have d: "json_dumps (PList (map PDict (take (page_limit t) (rows t)))) = Inr (body env)"
    by (auto split: sum.splits)
  then have l: "json_loads (body env) = Some (PList (map PDict (take (page_limit t) (rows t))))"
    by (rule json_loads_dumps)
  from d l show ?thesis by simp
qed

theorem first_page_body_witness:
  \<open>json_loads ''[{"id": "a"}, {"id": "b"}]'' =
     Some (PList [PDict [(''id'', PStr ''a'')], PDict [(''id'', PStr ''b'')]])\<close>
  using first_page_body [of "0::nat" "0::nat"
      "\<lparr>rows = [[(''id'', PStr ''a'')], [(''id'', PStr ''b'')], [(''id'', PStr ''c'')]],
        page_limit = 2, faults = []\<rparr>"
      "\<lparr>statusCode = 200, headers = fixed_headers,
        body = ''[{\"id\": \"a\"}, {\"id\": \"b\"}]''\<rparr>"]
  by (simp add: lambda_handler_def table_scan_def scan_page_def start_of_def try_body_def
      getitem_def encode_string_def escape_char_def)

text \<open>
  Claim C1 as stated fails on a table of three rows with two rows to a page: the
  handler answers 200 with the first two records, and the array of all three records
  is another text.
\<close>

theorem first_page_only_counterexample:
  \<open>fst (lambda_handler table_scan () ()
          \<lparr>rows = [[(''id'', PStr ''a'')], [(''id'', PStr ''b'')], [(''id'', PStr ''c'')]],
           page_limit = 2, faults = []\<rparr>) =
     Inr \<lparr>statusCode = 200, headers = fixed_headers,
          body = ''[{"id": "a"}, {"id": "b"}]''\<rparr> \<and>
   json_loads ''[{"id": "a"}, {"id": "b"}]'' =
     Some (PList [PDict [(''id'', PStr ''a'')], PDict [(''id'', PStr ''b'')]]) \<and>
   json_dumps (PList (map PDict
       [[(''id'', PStr ''a'')], [(''id'', PStr ''b'')], [(''id'', PStr ''c'')]])) =
     Inr ''[{"id": "a"}, {"id": "b"}, {"id": "c"}]'' \<and>
   ''[{"id": "a"}, {"id": "b"}]'' \<noteq> ''[{"id": "a"}, {"id": "b"}, {"id": "c"}]'' \<and>
   length [PDict [(''id'', PStr ''a'')], PDict [(''id'', PStr ''b'')]] \<noteq>
     length [[(''id'', PStr ''a'')], [(''id'', PStr ''b'')], [(''id'', PStr ''c'')]]\<close>
proof -
  have d: \<open>json_dumps (PList [PDict [(''id'', PStr ''a'')], PDict [(''id'', PStr ''b'')]]) =
      Inr ''[{"id": "a"}, {"id": "b"}]''\<close>
    by (simp add: encode_string_def escape_char_def)
  have l: \<open>json_loads ''[{"id": "a"}, {"id": "b"}]'' =
      Some (PList [PDict [(''id'', PStr ''a'')], PDict [(''id'', PStr ''b'')]])\<close>
    using d by (rule json_loads_dumps)
  have h: \<open>fst (lambda_handler table_scan () ()
          \<lparr>rows = [[(''id'', PStr ''a'')], [(''id'', PStr ''b'')], [(''id'', PStr ''c'')]],
           page_limit = 2, faults = []\<rparr>) =
     Inr \<lparr>statusCode = 200, headers = fixed_headers,
          body = ''[{"id": "a"}, {"id": "b"}]''\<rparr>\<close>
    by (simp add: lambda_handler_def table_scan_def scan_page_def start_of_def try_body_def
        getitem_def encode_string_def escape_char_def)
  have a: \<open>json_dumps (PList (map PDict
       [[(''id'', PStr ''a'')], [(''id'', PStr ''b'')], [(''id'', PStr ''c'')]])) =
     Inr ''[{"id": "a"}, {"id": "b"}, {"id": "c"}]''\<close>
    by (simp add: encode_string_def escape_char_def)
  from h l a show ?thesis by simp
qed

text \<open>
  Claim C3, as the code has it. The handler issues the first page request only. When
  that request succeeds, the answer is decided by the first page alone, whatever a
  later request would do: status 200 with the records of the first page when
  \<^verbatim>\<open>json.dumps\<close> accepts them, the 500 envelope of its \<^verbatim>\<open>TypeError\<close> when it does not.
  Two table clients that answer the request without keyword arguments alike give the
  same result.
\<close>

theorem first_page_decides:
  "(map_of (faults t) [] = None \<and>
    json_dumps (PList (map PDict (take (page_limit t) (rows t)))) = Inr b \<longrightarrow>
      fst (lambda_handler table_scan event context t) =
        Inr \<lparr>statusCode = 200, headers = fixed_headers, body = b\<rparr>) \<and>
   (map_of (faults t) [] = None \<and>
    json_dumps (PList (map PDict (take (page_limit t) (rows t)))) = Inl e \<longrightarrow>
      fst (lambda_handler table_scan event context t) = Inr (failure_envelope e)) \<and>
   (scan [] s = scan' [] s \<longrightarrow>
      lambda_handler scan event context s = lambda_handler scan' event context s)"
proof (intro conjI impI)
  assume "map_of (faults t) [] = None \<and>
    json_dumps (PList (map PDict (take (page_limit t) (rows t)))) = Inr b"
  then have "try_body (fst (table_scan [] t)) =
      Inr \<lparr>statusCode = 200, headers = fixed_headers, body = b\<rparr>"
    by (simp add: table_first_page)
  then show "fst (lambda_handler table_scan event context t) =
        Inr \<lparr>statusCode = 200, headers = fixed_headers, body = b\<rparr>"
    by (rule handler_success)
next
  assume "map_of (faults t) [] = None \<and>
    json_dumps (PList (map PDict (take (page_limit t) (rows t)))) = Inl e"
  then have "try_body (fst (table_scan [] t)) = Inl e"
    by (simp add: table_first_page)
  then show "fst (lambda_handler table_scan event context t) = Inr (failure_envelope e)"
    by (rule handler_failure)
next
  assume "scan [] s = scan' [] s"
  then show "lambda_handler scan event context s = lambda_handler scan' event context s"
    by (simp add: lambda_handler_def)
qed

theorem first_page_decides_witness:
  \<open>fst (lambda_handler table_scan () ()
          \<lparr>rows = [[(''id'', PStr ''a'')], [(''id'', PStr ''b'')], [(''id'', PStr ''c'')]],
           page_limit = 2,
           faults = [([(''ExclusiveStartKey'', PInt 2)],
                      PyExn ''ClientError'' ''throttled'')]\<rparr>) =
     Inr \<lparr>statusCode = 200, headers = fixed_headers,
          body = ''[{"id": "a"}, {"id": "b"}]''\<rparr>\<close>
  using first_page_decides [of
      "\<lparr>rows = [[(''id'', PStr ''a'')], [(''id'', PStr ''b'')], [(''id'', PStr ''c'')]],
        page_limit = 2,
        faults = [([(''ExclusiveStartKey'', PInt 2)],
                      PyExn ''ClientError'' ''throttled'')]\<rparr>"
      "''[{\"id\": \"a\"}, {\"id\": \"b\"}]''" "()" "()" "PyExn [] []"
      table_scan
      "\<lparr>rows = [], page_limit = 2, faults = []\<rparr>"
      table_scan]
  by (simp add: encode_string_def escape_char_def)

text \<open>
  Claim C3 as stated fails on a table of three rows with two rows to a page whose
  request for page 2 raises: page 1 succeeds with a continuation token, the page 2
  request raises, and the handler answers 200 with the records of page 1.
\<close>

theorem page_two_failure_counterexample:
  \<open>fst (table_scan []
          \<lparr>rows = [[(''id'', PStr ''a'')], [(''id'', PStr ''b'')], [(''id'', PStr ''c'')]],
           page_limit = 2,
           faults = [([(''ExclusiveStartKey'', PInt 2)],
                      PyExn ''ClientError'' ''throttled'')]\<rparr>) =
     Inr [(''Items'', PList [PDict [(''id'', PStr ''a'')], PDict [(''id'', PStr ''b'')]]),
          (''Count'', PInt 2), (''ScannedCount'', PInt 2), (''LastEvaluatedKey'', PInt 2)] \<and>
   fst (table_scan [(''ExclusiveStartKey'', PInt 2)]
          \<lparr>rows = [[(''id'', PStr ''a'')], [(''id'', PStr ''b'')], [(''id'', PStr ''c'')]],
           page_limit = 2,
           faults = [([(''ExclusiveStartKey'', PInt 2)],
                      PyExn ''ClientError'' ''throttled'')]\<rparr>) =
     Inl (PyExn ''ClientError'' ''throttled'') \<and>
   fst (lambda_handler table_scan () ()
          \<lparr>rows = [[(''id'', PStr ''a'')], [(''id'', PStr ''b'')], [(''id'', PStr ''c'')]],
           page_limit = 2,
           faults = [([(''ExclusiveStartKey'', PInt 2)],
                      PyExn ''ClientError'' ''throttled'')]\<rparr>) =
     Inr \<lparr>statusCode = 200, headers = fixed_headers,
          body = ''[{"id": "a"}, {"id": "b"}]''\<rparr>\<close>
  by (simp add: lambda_handler_def table_scan_def scan_page_def start_of_def try_body_def
      getitem_def encode_string_def escape_char_def)

end
